theory Spec2Isabelle
  imports Complex_Main "HOL-Library.Sublist"
begin

text \<open>
  A verification development for a Streamlit dashboard (\<^verbatim>\<open>src/app.py\<close>): the user
  enters hours for five categories, a chart and a timeline are drawn from them, and a
  remote text generator is asked for a score and an advice, which are parsed out of
  its reply and kept in the session. The definitions below follow the functions of the source;
  the theorems settle what the specification says about them.
\<close>

section \<open>Python strings\<close>

text \<open>
  A Python \<^verbatim>\<open>str\<close> is a sequence of Unicode code points. The responses of the
  judge hold Korean text, so a character is modelled by its code point, a natural
  number, and a string by the list of its code points.
\<close>

type_synonym pystr = "nat list"

text \<open>
  \<^verbatim>\<open>str.isspace\<close> on one character, which is also the class \<^verbatim>\<open>\s\<close> of
  \<^verbatim>\<open>re\<close> on a \<^verbatim>\<open>str\<close> pattern and the set \<^verbatim>\<open>str.strip()\<close> removes:
  U+0009..U+000D, U+001C..U+0020, U+0085, U+00A0, U+1680, U+2000..U+200A, U+2028,
  U+2029, U+202F, U+205F, U+3000.
\<close>

definition space_points :: "nat list" where
  "space_points =
    [9, 10, 11, 12, 13, 28, 29, 30, 31, 32, 133, 160, 5760, 8192, 8193, 8194, 8195, 8196,
     8197, 8198, 8199, 8200, 8201, 8202, 8232, 8233, 8239, 8287, 12288]"

definition isspace :: "nat \<Rightarrow> bool" where
  "isspace c \<longleftrightarrow> c \<in> set space_points"

text \<open>
  The class \<^verbatim>\<open>\d\<close> of \<^verbatim>\<open>re\<close> on a \<^verbatim>\<open>str\<close> pattern is the Unicode category
  Nd. Its characters come in runs of ten, the digits 0 to 9 of one script in order;
  \<open>decimal_zeros\<close> lists the code point of the zero of every run (Unicode 14, the
  table of CPython 3.11). \<^verbatim>\<open>int\<close> reads a character of the class as the digit it
  stands for.
\<close>

definition decimal_zeros :: "nat list" where
  "decimal_zeros =
    [48, 1632, 1776, 1984, 2406, 2534, 2662, 2790, 2918, 3046, 3174, 3302, 3430, 3558,
     3664, 3792, 3872, 4160, 4240, 6112, 6160, 6470, 6608, 6784, 6800, 6992, 7088, 7232,
     7248, 42528, 43216, 43264, 43472, 43504, 43600, 44016, 65296, 66720, 68912, 69734,
     69872, 69942, 70096, 70384, 70736, 70864, 71248, 71360, 71472, 71904, 72016, 72784,
     73040, 73120, 92768, 92864, 93008, 120782, 120792, 120802, 120812, 120822, 123200,
     123632, 125264, 130032]"

definition decimal_value :: "nat \<Rightarrow> nat option" where
  "decimal_value c =
     (case filter (\<lambda>z. z \<le> c \<and> c < z + 10) decimal_zeros of
        [] \<Rightarrow> None
      | z # _ \<Rightarrow> Some (c - z))"

definition isdecimal :: "nat \<Rightarrow> bool" where
  "isdecimal c \<longleftrightarrow> decimal_value c \<noteq> None"

text \<open>
  The integer a string of decimal digits stands for. Python integers are unbounded.
\<close>

definition digit_of :: "nat \<Rightarrow> int" where
  "digit_of c = (case decimal_value c of None \<Rightarrow> 0 | Some d \<Rightarrow> int d)"

definition int_of_decimal :: "pystr \<Rightarrow> int" where
  "int_of_decimal ds = foldl (\<lambda>acc c. 10 * acc + digit_of c) 0 ds"

text \<open>
  \<^verbatim>\<open>str(n)\<close> for a natural number \<open>n\<close>: its ASCII decimal digits.
\<close>

function decimal_str :: "nat \<Rightarrow> pystr" where
  "decimal_str n = (if n < 10 then [48 + n] else decimal_str (n div 10) @ [48 + n mod 10])"
  by pat_completeness auto
termination
  by (relation "measure id") auto

declare decimal_str.simps [simp del]

text \<open>
  \<^verbatim>\<open>int(s)\<close> for a string \<open>s\<close> of decimal digits, the only strings the program
  converts (group 1 of the pattern is \<^verbatim>\<open>\d+\<close>). CPython refuses to convert a
  string of more digits than \<^verbatim>\<open>sys.get_int_max_str_digits()\<close>, which is 4300
  unless the interpreter is configured otherwise (the program does not touch it):
  leading zeros and digits of any script count alike, and the conversion raises
  \<^verbatim>\<open>ValueError\<close> with the description
  \<^verbatim>\<open>Exceeds the limit (4300 digits) for integer string conversion: value has N
  digits; use sys.set_int_max_str_digits() to increase the limit\<close>, \<open>N\<close> being the
  number of digits. \<open>Inl\<close> is that description, \<open>Inr\<close> the integer.
\<close>

definition int_max_str_digits :: nat where
  "int_max_str_digits = 4300"

definition msg_int_limit :: "nat \<Rightarrow> pystr" where
  "msg_int_limit n =
     [69, 120, 99, 101, 101, 100, 115, 32, 116, 104, 101, 32, 108, 105, 109, 105, 116,
      32, 40] @
     decimal_str int_max_str_digits @
     [32, 100, 105, 103, 105, 116, 115, 41, 32, 102, 111, 114, 32, 105, 110, 116, 101,
      103, 101, 114, 32, 115, 116, 114, 105, 110, 103, 32, 99, 111, 110, 118, 101, 114,
      115, 105, 111, 110, 58, 32, 118, 97, 108, 117, 101, 32, 104, 97, 115, 32] @
     decimal_str n @
     [32, 100, 105, 103, 105, 116, 115, 59, 32, 117, 115, 101, 32, 115, 121, 115, 46,
      115, 101, 116, 95, 105, 110, 116, 95, 109, 97, 120, 95, 115, 116, 114, 95, 100,
      105, 103, 105, 116, 115, 40, 41, 32, 116, 111, 32, 105, 110, 99, 114, 101, 97,
      115, 101, 32, 116, 104, 101, 32, 108, 105, 109, 105, 116]"

definition py_int :: "pystr \<Rightarrow> pystr + int" where
  "py_int ds =
     (if length ds > int_max_str_digits then Inl (msg_int_limit (length ds))
      else Inr (int_of_decimal ds))"

text \<open>\<^verbatim>\<open>s.strip()\<close>: whitespace removed at both ends.\<close>

definition strip :: "pystr \<Rightarrow> pystr" where
  "strip s = rev (dropWhile isspace (rev (dropWhile isspace s)))"

text \<open>
  \<^verbatim>\<open>s.replace(old, "")\<close>: the string is scanned from the left; where \<open>old\<close>
  starts it is skipped and the scan goes on behind it, every other character is kept.
  With an empty \<open>old\<close> nothing is removed.
\<close>

function replace_with_empty :: "pystr \<Rightarrow> pystr \<Rightarrow> pystr" where
  "replace_with_empty old [] = []"
| "replace_with_empty old (c # cs) =
     (if old \<noteq> [] \<and> prefix old (c # cs)
      then replace_with_empty old (drop (length old) (c # cs))
      else c # replace_with_empty old cs)"
  by pat_completeness auto
termination
  by (relation "measure (\<lambda>(old, s). length s)") (auto simp: Suc_diff_le)

section \<open>The pattern \<^verbatim>\<open>SCORE:\s*(\d+)\<close>\<close>

text \<open>The literal \<^verbatim>\<open>SCORE:\<close> of the pattern.\<close>

definition SCORE_lit :: pystr where
  "SCORE_lit = [83, 67, 79, 82, 69, 58]"

text \<open>
  A match attempt at the start of \<open>s\<close>: the literal, then \<^verbatim>\<open>\s*\<close>, then
  \<^verbatim>\<open>\d+\<close>, both greedy. No character is both whitespace and a digit, so giving
  back whitespace or digits never turns a failed attempt into a match, and the attempt
  is deterministic. The result is the pair of \<^verbatim>\<open>group(0)\<close> and \<^verbatim>\<open>group(1)\<close>.
\<close>

definition match_here :: "pystr \<Rightarrow> (pystr \<times> pystr) option" where
  "match_here s =
     (if prefix SCORE_lit s then
        (let r = drop (length SCORE_lit) s;
             ws = takeWhile isspace r;
             ds = takeWhile isdecimal (dropWhile isspace r)
         in if ds = [] then None else Some (SCORE_lit @ ws @ ds, ds))
      else None)"

text \<open>
  \<^verbatim>\<open>re.search\<close> tries every start position from the left and returns the first
  match.
\<close>

fun re_search :: "pystr \<Rightarrow> (pystr \<times> pystr) option" where
  "re_search [] = match_here []"
| "re_search (c # cs) =
     (case match_here (c # cs) of
        Some m \<Rightarrow> Some m
      | None \<Rightarrow> re_search cs)"

section \<open>The remote judge client\<close>

text \<open>
  What \<^verbatim>\<open>requests.get(api_url)\<close> does is the input of the model: it returns a
  response with a status code and a text, or it raises an exception \<open>e\<close>, of which
  the program uses \<^verbatim>\<open>str(e)\<close> only. The lines before the \<^verbatim>\<open>try\<close> build the
  request from the routine data and decide nothing else.
\<close>

datatype http_outcome = Responded int pystr | Raised pystr

definition msg_bad_format :: pystr where
  "msg_bad_format =
     [65, 73, 32, 54805, 49885, 51060, 32, 50732, 48148, 47476, 51648, 32, 50506, 49845,
      45768, 45796, 46, 32, 45236, 50857, 58, 32]"

definition msg_connection :: pystr where
  "msg_connection =
     [65, 73, 32, 49436, 48260, 32, 50672, 44208, 32, 50724, 47448, 51077, 45768, 45796, 46]"

definition msg_error :: pystr where
  "msg_error = [69, 114, 114, 111, 114, 58, 32]"

text \<open>
  The body of the \<^verbatim>\<open>try\<close> statement: \<open>Inl e\<close> is an exception with description
  \<open>e\<close> raised inside it, \<open>Inr\<close> a value returned from it. Inside the body the call
  of \<^verbatim>\<open>requests.get\<close> can raise, and so can \<^verbatim>\<open>int(match.group(1))\<close>, which
  runs before the advice is built.
\<close>

definition try_body :: "http_outcome \<Rightarrow> pystr + (int \<times> pystr)" where
  "try_body out =
     (case out of
        Raised e \<Rightarrow> Inl e
      | Responded status_code full_text \<Rightarrow>
          if status_code = 200 then
            (case re_search full_text of
               Some (g0, g1) \<Rightarrow>
                 (case py_int g1 of
                    Inl e \<Rightarrow> Inl e
                  | Inr ai_score \<Rightarrow>
                      Inr (ai_score, strip (replace_with_empty g0 full_text)))
             | None \<Rightarrow> Inr (0, msg_bad_format @ full_text))
          else Inr (0, msg_connection))"

text \<open>The whole function: the handler \<^verbatim>\<open>except Exception as e\<close> around the body.\<close>

definition ask_ai_for_score_and_advice :: "http_outcome \<Rightarrow> int \<times> pystr" where
  "ask_ai_for_score_and_advice out =
     (case try_body out of
        Inl e \<Rightarrow> (0, msg_error @ e)
      | Inr r \<Rightarrow> r)"

section \<open>Reading the pattern and the replacement as specifications\<close>

text \<open>
  The language of the pattern, stated without the matcher: a match starts at index
  \<open>i\<close> of \<open>s\<close> when the text from \<open>i\<close> on is the literal, then whitespace, then at
  least one decimal digit.
\<close>

definition pattern_matches_at :: "pystr \<Rightarrow> nat \<Rightarrow> bool" where
  "pattern_matches_at s i \<longleftrightarrow>
     (\<exists>ws ds rest. drop i s = SCORE_lit @ ws @ ds @ rest \<and>
        list_all isspace ws \<and> ds \<noteq> [] \<and> list_all isdecimal ds)"

text \<open>
  The matched score token of a response, stated without the matcher: the response
  has \<^verbatim>\<open>SCORE:\<close>, the whitespace \<open>ws\<close> and the digits \<open>ds\<close> at the leftmost index
  where the pattern matches, \<open>ds\<close> being the whole run of digits there.
\<close>

definition first_token :: "pystr \<Rightarrow> pystr \<Rightarrow> pystr \<Rightarrow> bool" where
  "first_token body ws ds \<longleftrightarrow>
     (\<exists>pre rest. body = pre @ SCORE_lit @ ws @ ds @ rest \<and>
        list_all isspace ws \<and> ds \<noteq> [] \<and> list_all isdecimal ds \<and>
        (rest = [] \<or> \<not> isdecimal (hd rest)) \<and>
        (\<forall>i<length pre. \<not> pattern_matches_at body i))"

text \<open>
  The search as the specification words it: the first place where a fixed prefix
  \<open>p\<close> is immediately followed by one or more decimal digits, with no whitespace
  allowed in between. It is compared with \<open>re_search\<close> below.
\<close>

definition spec_match_here :: "pystr \<Rightarrow> pystr \<Rightarrow> (pystr \<times> pystr) option" where
  "spec_match_here p s =
     (if prefix p s then
        (let ds = takeWhile isdecimal (drop (length p) s)
         in if ds = [] then None else Some (p @ ds, ds))
      else None)"

fun spec_search :: "pystr \<Rightarrow> pystr \<Rightarrow> (pystr \<times> pystr) option" where
  "spec_search p [] = spec_match_here p []"
| "spec_search p (c # cs) =
     (case spec_match_here p (c # cs) of
        Some m \<Rightarrow> Some m
      | None \<Rightarrow> spec_search p cs)"

text \<open>
  The pieces of \<open>s\<close> that the scan of \<open>replace_with_empty\<close> keeps, one before each
  removed occurrence of \<open>old\<close> and one after the last, and the number of positions
  of \<open>s\<close> at which \<open>old\<close> starts.
\<close>

function pieces :: "pystr \<Rightarrow> pystr \<Rightarrow> pystr list" where
  "pieces old [] = [[]]"
| "pieces old (c # cs) =
     (if old \<noteq> [] \<and> prefix old (c # cs)
      then [] # pieces old (drop (length old) (c # cs))
      else (case pieces old cs of
              [] \<Rightarrow> [[c]]
            | p # ps \<Rightarrow> (c # p) # ps))"
  by pat_completeness auto
termination
  by (relation "measure (\<lambda>(old, s). length s)") (auto simp: Suc_diff_le)

fun join :: "pystr \<Rightarrow> pystr list \<Rightarrow> pystr" where
  "join sep [] = []"
| "join sep [p] = p"
| "join sep (p # q # ps) = p @ sep @ join sep (q # ps)"

fun occurrences :: "pystr \<Rightarrow> pystr \<Rightarrow> nat" where
  "occurrences old [] = 0"
| "occurrences old (c # cs) = (if prefix old (c # cs) then 1 else 0) + occurrences old cs"

section \<open>The routine data and the colour table\<close>

text \<open>
  A dictionary keeps its insertion order, and both renderers walk it in that order:
  the routine data is the list of its items. The hours are Python floats and are real
  numbers here: the chart renderer compares them with zero and hands them on as the
  heights of the bars. The timeline renderer, which divides, multiplies and adds
  them in floating point and compares the rounded sum with the width of the strip,
  is not part of this development.
\<close>

type_synonym routine = "(string \<times> real) list"

definition input_data :: "real \<Rightarrow> real \<Rightarrow> real \<Rightarrow> real \<Rightarrow> real \<Rightarrow> routine" where
  "input_data sleep study screen exercise social =
     [(''Sleep'', sleep), (''Study'', study), (''Screen'', screen),
      (''Exercise'', exercise), (''Social'', social)]"

definition COLORS :: "(string \<times> string) list" where
  "COLORS =
     [(''Sleep'', ''#2C3E50''), (''Study'', ''#E67E22''), (''Screen'', ''#E74C3C''),
      (''Exercise'', ''#27AE60''), (''Social'', ''#F1C40F''), (''Others'', ''#95A5A6'')]"

text \<open>\<^verbatim>\<open>COLORS.get(cat, "#95A5A6")\<close>\<close>

definition COLORS_get :: "string \<Rightarrow> string" where
  "COLORS_get cat = (case map_of COLORS cat of None \<Rightarrow> ''#95A5A6'' | Some c \<Rightarrow> c)"

section \<open>The chart renderer\<close>

text \<open>
  The figure is modelled by what the function puts on the axes: the bars of
  \<^verbatim>\<open>ax.bar(categories, values, color=bar_colors, ...)\<close>, one for each position of
  the two lists, and the texts of the loop over the bars. A text stands over the
  centre of its bar, given here by the bar's index, at height \<open>height + 0.5\<close>, and
  shows the bar's height.
\<close>

record bar =
  bar_category :: string
  bar_height :: real
  bar_color :: string

record bar_text =
  text_bar :: nat
  text_y :: real
  text_hours :: real

record chart =
  bars :: "bar list"
  texts :: "bar_text list"

fun label_bars :: "nat \<Rightarrow> bar list \<Rightarrow> bar_text list" where
  "label_bars i [] = []"
| "label_bars i (b # bs) =
     (let height = bar_height b
      in if height > 0
         then \<lparr>text_bar = i, text_y = height + 1 / 2, text_hours = height\<rparr>
                # label_bars (Suc i) bs
         else label_bars (Suc i) bs)"

definition create_bar_chart :: "routine \<Rightarrow> chart" where
  "create_bar_chart data =
     (let categories = map fst data;
          values = map snd data;
          bar_colors = map COLORS_get categories;
          the_bars = map (\<lambda>(cat, v, col). \<lparr>bar_category = cat, bar_height = v, bar_color = col\<rparr>)
                       (zip categories (zip values bar_colors))
      in \<lparr>bars = the_bars, texts = label_bars 0 the_bars\<rparr>)"

section \<open>The presentation shell\<close>

text \<open>
  Streamlit runs the script from the top at every interaction. What lasts from one
  run to the next is \<^verbatim>\<open>st.session_state\<close>, with the two keys the script sets to
  \<^verbatim>\<open>None\<close> when they are missing. One run is given by the values of the sliders
  and by the button: \<open>None\<close> when it was not clicked, \<open>Some out\<close> when it was and the
  request made by the judge client had the outcome \<open>out\<close>.
\<close>

record session_state =
  ai_score :: "int option"
  ai_advice :: "pystr option"

definition new_session :: session_state where
  "new_session = \<lparr>ai_score = None, ai_advice = None\<rparr>"

record interaction =
  sliders :: routine
  button :: "http_outcome option"

datatype box = St_success | St_warning | St_error

datatype result_view = St_info | St_result int "pystr option" box

text \<open>The evaluate block of one run: the state the run leaves.\<close>

definition run_script :: "session_state \<Rightarrow> interaction \<Rightarrow> session_state" where
  "run_script st ev =
     (case button ev of
        None \<Rightarrow> st
      | Some out \<Rightarrow>
          (let (score, advice) = ask_ai_for_score_and_advice out
           in st\<lparr>ai_score := Some score, ai_advice := Some advice\<rparr>))"

text \<open>The display block of one run, on the state the evaluate block left.\<close>

definition display :: "session_state \<Rightarrow> result_view" where
  "display st =
     (case ai_score st of
        None \<Rightarrow> St_info
      | Some final_score \<Rightarrow>
          St_result final_score (ai_advice st)
            (if final_score \<ge> 80 then St_success
             else if final_score \<ge> 50 then St_warning
             else St_error))"

text \<open>The outcome of the most recent run in which the button was clicked, if any.\<close>

fun last_evaluation :: "interaction list \<Rightarrow> http_outcome option" where
  "last_evaluation [] = None"
| "last_evaluation (ev # evs) =
     (case last_evaluation evs of
        Some out \<Rightarrow> Some out
      | None \<Rightarrow> button ev)"

text \<open>The state right after an evaluation that returned the pair \<open>r\<close>.\<close>

definition stored_result :: "int \<times> pystr \<Rightarrow> session_state" where
  "stored_result r = \<lparr>ai_score = Some (fst r), ai_advice = Some (snd r)\<rparr>"

section \<open>The character classes and the matcher\<close>

lemma space_not_decimal: "isspace c \<Longrightarrow> \<not> isdecimal c"
proof -
  have "list_all (\<lambda>c. \<not> isdecimal c) space_points"
    by (simp add: space_points_def isdecimal_def decimal_value_def decimal_zeros_def)
  then show "isspace c \<Longrightarrow> \<not> isdecimal c"
    by (simp add: isspace_def list_all_iff)
qed

lemma takeWhile_run:
  "list_all P xs \<Longrightarrow> rest = [] \<or> \<not> P (hd rest) \<Longrightarrow> takeWhile P (xs @ rest) = xs"
  by (induction xs) (auto simp: takeWhile_eq_Nil_iff neq_Nil_conv)

lemma dropWhile_run:
  "list_all P xs \<Longrightarrow> rest = [] \<or> \<not> P (hd rest) \<Longrightarrow> dropWhile P (xs @ rest) = rest"
  by (induction xs) (auto simp: dropWhile_eq_self_iff neq_Nil_conv)

lemma match_here_token:
  assumes "list_all isspace ws" "ds \<noteq> []" "list_all isdecimal ds"
    and "rest = [] \<or> \<not> isdecimal (hd rest)"
  shows "match_here (SCORE_lit @ ws @ ds @ rest) = Some (SCORE_lit @ ws @ ds, ds)"
proof -
  from assms have "isdecimal (hd ds)" by (cases ds) auto
  then have "\<not> isspace (hd (ds @ rest))" using assms(2) space_not_decimal by auto
  then have w: "takeWhile isspace (ws @ ds @ rest) = ws" "dropWhile isspace (ws @ ds @ rest) = ds @ rest"
    using assms(1) takeWhile_run[of isspace ws "ds @ rest"] dropWhile_run[of isspace ws "ds @ rest"] by auto
  have d: "takeWhile isdecimal (ds @ rest) = ds"
    using assms takeWhile_run by blast
  show ?thesis using assms(2) by (simp add: match_here_def w d)
qed

lemma list_all_takeWhile: "list_all P (takeWhile P xs)"
  by (induction xs) auto

lemma dropWhile_stops: "dropWhile P xs = [] \<or> \<not> P (hd (dropWhile P xs))"
  by (induction xs) auto

lemma match_here_Some_imp:
  assumes "match_here s = Some (g0, g1)"
  shows "\<exists>ws rest. s = SCORE_lit @ ws @ g1 @ rest \<and> g0 = SCORE_lit @ ws @ g1 \<and>
           list_all isspace ws \<and> g1 \<noteq> [] \<and> list_all isdecimal g1 \<and>
           (rest = [] \<or> \<not> isdecimal (hd rest))"
proof -
  define r where "r = drop (length SCORE_lit) s"
  define ws where "ws = takeWhile isspace r"
  define r' where "r' = dropWhile isspace r"
  define ds where "ds = takeWhile isdecimal r'"
  define rest where "rest = dropWhile isdecimal r'"
  have p: "prefix SCORE_lit s"
  proof (rule ccontr)
    assume "\<not> prefix SCORE_lit s"
    then have "match_here s = None" by (simp add: match_here_def)
    with assms show False by simp
  qed
  then have m: "match_here s = (if ds = [] then None else Some (SCORE_lit @ ws @ ds, ds))"
    unfolding match_here_def Let_def ds_def ws_def r'_def r_def by simp
  have ne: "ds \<noteq> []"
  proof
    assume "ds = []"
    with m have "match_here s = None" by simp
    with assms show False by simp
  qed
  with m assms have g: "g0 = SCORE_lit @ ws @ ds" "g1 = ds" by simp_all
  from p have s1: "s = SCORE_lit @ r" unfolding r_def prefix_def by auto
  have s2: "r = ws @ r'" unfolding ws_def r'_def by simp
  have s3: "r' = ds @ rest" unfolding ds_def rest_def by simp
  have "s = SCORE_lit @ ws @ ds @ rest" using s1 s2 s3 by simp
  moreover have "list_all isspace ws" unfolding ws_def by (rule list_all_takeWhile)
  moreover have "list_all isdecimal ds" unfolding ds_def by (rule list_all_takeWhile)
  moreover have "rest = [] \<or> \<not> isdecimal (hd rest)"
    unfolding rest_def by (rule dropWhile_stops)
  ultimately show ?thesis using g ne by blast
qed

lemma match_here_iff_pattern:
  "match_here (drop i s) \<noteq> None \<longleftrightarrow> pattern_matches_at s i"
proof
  assume "match_here (drop i s) \<noteq> None"
  then obtain g0 g1 where "match_here (drop i s) = Some (g0, g1)" by auto
  from match_here_Some_imp[OF this] show "pattern_matches_at s i"
    unfolding pattern_matches_at_def by blast
next
  assume "pattern_matches_at s i"
  then obtain ws ds rest where d: "drop i s = SCORE_lit @ ws @ ds @ rest"
    "list_all isspace ws" "ds \<noteq> []" "list_all isdecimal ds"
    unfolding pattern_matches_at_def by blast
  define ds' where "ds' = ds @ takeWhile isdecimal rest"
  define rest' where "rest' = dropWhile isdecimal rest"
  have e: "ds @ rest = ds' @ rest'" by (simp add: ds'_def rest'_def)
  have 1: "ds' \<noteq> []" using d(3) by (simp add: ds'_def)
  have 2: "list_all isdecimal ds'" using d(4)
    by (simp add: ds'_def list_all_takeWhile)
  have 3: "rest' = [] \<or> \<not> isdecimal (hd rest')"
    unfolding rest'_def by (rule dropWhile_stops)
  have "match_here (SCORE_lit @ ws @ ds' @ rest') = Some (SCORE_lit @ ws @ ds', ds')"
    using d(2) 1 2 3 by (rule match_here_token)
  moreover have "drop i s = SCORE_lit @ ws @ ds' @ rest'" using d(1) e by simp
  ultimately show "match_here (drop i s) \<noteq> None" by simp
qed

lemma re_search_first:
  "match_here t = Some m \<Longrightarrow> \<forall>i<length pre. match_here (drop i (pre @ t)) = None
     \<Longrightarrow> re_search (pre @ t) = Some m"
proof (induction pre)
  case Nil
  then show ?case by (cases t) auto
next
  case (Cons c pre)
  from Cons.prems(2) have "match_here (drop 0 ((c # pre) @ t)) = None" by blast
  then have h: "match_here (c # pre @ t) = None" by simp
  have "\<forall>i<length pre. match_here (drop i (pre @ t)) = None"
  proof (intro allI impI)
    fix i assume "i < length pre"
    then have "match_here (drop (Suc i) ((c # pre) @ t)) = None"
      using Cons.prems(2) by (metis Suc_less_eq length_Cons)
    then show "match_here (drop i (pre @ t)) = None" by simp
  qed
  with Cons.IH Cons.prems(1) have "re_search (pre @ t) = Some m" by blast
  with h show ?case by simp
qed

lemma re_search_None_iff:
  "re_search s = None \<longleftrightarrow> (\<forall>i\<le>length s. match_here (drop i s) = None)"
proof (induction s)
  case Nil
  then show ?case by simp
next
  case (Cons c s)
  have "(\<forall>i\<le>length (c # s). match_here (drop i (c # s)) = None) \<longleftrightarrow>
        match_here (c # s) = None \<and> (\<forall>i\<le>length s. match_here (drop i s) = None)"
    (is "?L \<longleftrightarrow> ?R")
  proof
    assume l: ?L
    then have "match_here (drop 0 (c # s)) = None" by blast
    moreover have "\<forall>i\<le>length s. match_here (drop i s) = None"
    proof (intro allI impI)
      fix i assume "i \<le> length s"
      then have "match_here (drop (Suc i) (c # s)) = None" using l by (metis Suc_le_mono length_Cons)
      then show "match_here (drop i s) = None" by simp
    qed
    ultimately show ?R by simp
  next
    assume r: ?R
    show ?L
    proof (intro allI impI)
      fix i assume "i \<le> length (c # s)"
      then show "match_here (drop i (c # s)) = None" using r by (cases i) auto
    qed
  qed
  with Cons.IH show ?case by (auto split: option.splits)
qed

lemma re_search_Some_imp:
  "re_search s = Some m \<Longrightarrow>
     \<exists>pre t. s = pre @ t \<and> match_here t = Some m \<and> (\<forall>i<length pre. match_here (drop i s) = None)"
proof (induction s)
  case Nil
  then show ?case by auto
next
  case (Cons c s)
  show ?case
  proof (cases "match_here (c # s)")
    case (Some m')
    with Cons.prems have "match_here (c # s) = Some m" by simp
    then have "c # s = [] @ (c # s) \<and> match_here (c # s) = Some m \<and>
       (\<forall>i<length ([]::nat list). match_here (drop i (c # s)) = None)" by simp
    then show ?thesis by blast
  next
    case None
    with Cons.prems have "re_search s = Some m" by simp
    from Cons.IH[OF this] obtain pre t where
      pt: "s = pre @ t" "match_here t = Some m" "\<forall>i<length pre. match_here (drop i s) = None"
      by blast
    have "\<forall>i<length (c # pre). match_here (drop i (c # s)) = None"
    proof (intro allI impI)
      fix i assume "i < length (c # pre)"
      then show "match_here (drop i (c # s)) = None"
        using None pt(3) by (cases i) auto
    qed
    with pt(1,2) have "c # s = (c # pre) @ t \<and> match_here t = Some m \<and>
       (\<forall>i<length (c # pre). match_here (drop i (c # s)) = None)" by simp
    then show ?thesis by blast
  qed
qed

section \<open>The judge client on a response\<close>

lemma ask_on_match:
  "re_search body = Some (g0, g1) \<Longrightarrow> length g1 \<le> int_max_str_digits \<Longrightarrow>
     ask_ai_for_score_and_advice (Responded 200 body) =
       (int_of_decimal g1, strip (replace_with_empty g0 body))"
  by (simp add: ask_ai_for_score_and_advice_def try_body_def py_int_def)

lemma ask_on_long_match:
  "re_search body = Some (g0, g1) \<Longrightarrow> int_max_str_digits < length g1 \<Longrightarrow>
     ask_ai_for_score_and_advice (Responded 200 body) =
       (0, msg_error @ msg_int_limit (length g1))"
  by (simp add: ask_ai_for_score_and_advice_def try_body_def py_int_def)

lemma ask_on_no_match:
  "re_search body = None \<Longrightarrow>
     ask_ai_for_score_and_advice (Responded 200 body) = (0, msg_bad_format @ body)"
  by (simp add: ask_ai_for_score_and_advice_def try_body_def)

lemma re_search_token:
  assumes b: "body = pre @ SCORE_lit @ ws @ ds @ rest"
    and t: "list_all isspace ws" "ds \<noteq> []" "list_all isdecimal ds"
      "rest = [] \<or> \<not> isdecimal (hd rest)"
    and first: "\<forall>i<length pre. \<not> pattern_matches_at body i"
  shows "re_search body = Some (SCORE_lit @ ws @ ds, ds)"
proof -
  have "match_here (SCORE_lit @ ws @ ds @ rest) = Some (SCORE_lit @ ws @ ds, ds)"
    using t by (rule match_here_token)
  moreover have "\<forall>i<length pre. match_here (drop i (pre @ SCORE_lit @ ws @ ds @ rest)) = None"
    using first match_here_iff_pattern[of _ body] unfolding b by blast
  ultimately show ?thesis unfolding b by (rule re_search_first)
qed

lemma digit_of_nonneg: "0 \<le> digit_of c"
  by (simp add: digit_of_def split: option.splits)

lemma foldl_decimal_nonneg:
  "0 \<le> acc \<Longrightarrow> 0 \<le> foldl (\<lambda>acc c. 10 * acc + digit_of c) acc ds"
  by (induction ds arbitrary: acc) (simp_all add: digit_of_nonneg)

lemma int_of_decimal_nonneg: "0 \<le> int_of_decimal ds"
  unfolding int_of_decimal_def by (rule foldl_decimal_nonneg) simp

lemma ask_score_nonneg: "0 \<le> fst (ask_ai_for_score_and_advice out)"
proof (cases out)
  case (Responded status_code full_text)
  then show ?thesis
    by (simp add: ask_ai_for_score_and_advice_def try_body_def py_int_def
        int_of_decimal_nonneg split: option.splits)
next
  case (Raised e)
  then show ?thesis by (simp add: ask_ai_for_score_and_advice_def try_body_def)
qed

lemmas class_eval = isspace_def space_points_def isdecimal_def decimal_value_def decimal_zeros_def
lemmas judge_eval = ask_ai_for_score_and_advice_def try_body_def py_int_def int_max_str_digits_def
  match_here_def spec_match_here_def
  SCORE_lit_def Let_def int_of_decimal_def digit_of_def strip_def

lemma minus_no_class: "\<not> isspace 45" "\<not> isdecimal 45"
  by (simp_all add: class_eval)

lemma match_here_minus:
  assumes "list_all isspace ws"
  shows "match_here (SCORE_lit @ ws @ 45 # rest) = None"
proof -
  have "takeWhile isspace (ws @ 45 # rest) = ws" "dropWhile isspace (ws @ 45 # rest) = 45 # rest"
    using assms minus_no_class(1) takeWhile_run[of isspace ws "45 # rest"]
      dropWhile_run[of isspace ws "45 # rest"] by simp_all
  then show ?thesis by (simp add: match_here_def minus_no_class(2))
qed

lemma isdecimal_zero_one: "isdecimal 48" "isdecimal 49"
  by (simp_all add: class_eval)

lemma long_digits: "list_all isdecimal (49 # replicate n 48)"
  by (simp add: list_all_iff isdecimal_zero_one)

text \<open>
  The description of the exception for a string of 4301 digits, character by
  character: \<^verbatim>\<open>Exceeds the limit (4300 digits) for integer string conversion: value
  has 4301 digits; use sys.set_int_max_str_digits() to increase the limit\<close>.
\<close>

lemma msg_int_limit_4301:
  "msg_int_limit 4301 =
     [69, 120, 99, 101, 101, 100, 115, 32, 116, 104, 101, 32, 108, 105, 109, 105, 116,
      32, 40, 52, 51, 48, 48, 32, 100, 105, 103, 105, 116, 115, 41, 32, 102, 111, 114,
      32, 105, 110, 116, 101, 103, 101, 114, 32, 115, 116, 114, 105, 110, 103, 32, 99,
      111, 110, 118, 101, 114, 115, 105, 111, 110, 58, 32, 118, 97, 108, 117, 101, 32,
      104, 97, 115, 32, 52, 51, 48, 49, 32, 100, 105, 103, 105, 116, 115, 59, 32, 117,
      115, 101, 32, 115, 121, 115, 46, 115, 101, 116, 95, 105, 110, 116, 95, 109, 97,
      120, 95, 115, 116, 114, 95, 100, 105, 103, 105, 116, 115, 40, 41, 32, 116, 111,
      32, 105, 110, 99, 114, 101, 97, 115, 101, 32, 116, 104, 101, 32, 108, 105, 109,
      105, 116]"
  by (simp add: msg_int_limit_def int_max_str_digits_def decimal_str.simps)

section \<open>Claims about the remote judge client\<close>

text \<open>
  Claim C1, as the code has it. The response with status 200 is searched for the
  first place where \<^verbatim>\<open>SCORE:\<close> is followed by any run of whitespace, possibly
  empty, and then by one or more decimal digits. Let \<open>body\<close> be
  \<open>pre @ SCORE_lit @ ws @ ds @ rest\<close> with \<open>ws\<close> whitespace, \<open>ds\<close> the whole run of
  digits, and no match of the pattern starting inside \<open>pre\<close>. When \<open>ds\<close> has at most
  4300 digits, the score is the integer value of \<open>ds\<close>, and the advice is the body
  with every occurrence of the matched text \<open>SCORE_lit @ ws @ ds\<close> removed by the
  left-to-right scan and the whitespace at both ends trimmed. When \<open>ds\<close> has more
  digits, \<^verbatim>\<open>int\<close> raises, and the result is score 0 with \<^verbatim>\<open>"Error: "\<close> and the
  description of the exception as the advice.
\<close>

theorem ask_first_token:
  assumes "body = pre @ SCORE_lit @ ws @ ds @ rest"
    and "list_all isspace ws" and "ds \<noteq> []" and "list_all isdecimal ds"
    and "rest = [] \<or> \<not> isdecimal (hd rest)"
    and "\<forall>i<length pre. \<not> pattern_matches_at body i"
  shows "ask_ai_for_score_and_advice (Responded 200 body) =
           (if length ds \<le> int_max_str_digits
            then (int_of_decimal ds, strip (replace_with_empty (SCORE_lit @ ws @ ds) body))
            else (0, msg_error @ msg_int_limit (length ds)))"
proof -
  have r: "re_search body = Some (SCORE_lit @ ws @ ds, ds)"
    using assms by (rule re_search_token)
  show ?thesis
  proof (cases "length ds \<le> int_max_str_digits")
    case True
    with ask_on_match[OF r] show ?thesis by simp
  next
    case False
    then have "int_max_str_digits < length ds" by simp
    from ask_on_long_match[OF r this] False show ?thesis by simp
  qed
qed

text \<open>
  The theorem at the response \<^verbatim>\<open>"x SCORE: \n83\nSCORE: \n83!"\<close>: the score is 83, both
  copies of the matched text are removed, and the advice is \<^verbatim>\<open>"x \n!"\<close>. And at the
  response \<^verbatim>\<open>SCORE:\<close> followed by the digit 1 and 4300 zeros, 4301 digits in all:
  the score is 0 and the advice reports the limit.
\<close>

theorem ask_first_token_witness:
  "\<not> (\<exists>i<length [120, 32::nat]. pattern_matches_at
       ([120, 32] @ SCORE_lit @ [32, 10] @ [56, 51] @ [10, 83, 67, 79, 82, 69, 58, 32, 10, 56, 51, 33]) i) \<and>
   ask_ai_for_score_and_advice (Responded 200
       ([120, 32] @ SCORE_lit @ [32, 10] @ [56, 51] @ [10, 83, 67, 79, 82, 69, 58, 32, 10, 56, 51, 33])) =
     (83, [120, 32, 10, 33]) \<and>
   ask_ai_for_score_and_advice (Responded 200 (SCORE_lit @ 49 # replicate 4300 48)) =
     (0, msg_error @ msg_int_limit 4301)"
proof -
  let ?rest = "[10, 83, 67, 79, 82, 69, 58, 32, 10, 56, 51, 33::nat]"
  let ?body = "[120, 32] @ SCORE_lit @ [32, 10] @ [56, 51] @ ?rest"
  have m: "match_here (drop 0 ?body) = None" "match_here (drop (Suc 0) ?body) = None"
    by (simp_all add: match_here_def SCORE_lit_def)
  have first: "\<forall>i<length [120, 32::nat]. \<not> pattern_matches_at ?body i"
  proof (intro allI impI)
    fix i :: nat assume "i < length [120, 32::nat]"
    then have "i = 0 \<or> i = Suc 0" by auto
    then have "match_here (drop i ?body) = None"
    proof
      assume "i = 0" then show ?thesis using m(1) by (simp only:)
    next
      assume "i = Suc 0" then show ?thesis using m(2) by (simp only:)
    qed
    then show "\<not> pattern_matches_at ?body i"
      using match_here_iff_pattern[of i ?body] by blast
  qed
  have h1: "list_all isspace [32, 10]" and h2: "[56, 51::nat] \<noteq> []"
    and h3: "list_all isdecimal [56, 51]" and h4: "?rest = [] \<or> \<not> isdecimal (hd ?rest)"
    by (simp_all add: class_eval)
  note eq = ask_first_token[OF refl h1 h2 h3 h4 first]
  have len: "length [56, 51::nat] \<le> int_max_str_digits"
    by (simp add: int_max_str_digits_def)
  have v: "int_of_decimal [56, 51] = 83"
    by (simp add: int_of_decimal_def digit_of_def decimal_value_def decimal_zeros_def)
  have a: "strip (replace_with_empty (SCORE_lit @ [32, 10] @ [56, 51]) ?body) = [120, 32, 10, 33]"
    by (simp add: SCORE_lit_def strip_def isspace_def space_points_def)
  from eq len have "ask_ai_for_score_and_advice (Responded 200 ?body) =
      (int_of_decimal [56, 51], strip (replace_with_empty (SCORE_lit @ [32, 10] @ [56, 51]) ?body))"
    by (simp only: if_True)
  then have short: "ask_ai_for_score_and_advice (Responded 200 ?body) = (83, [120, 32, 10, 33])"
    unfolding v a .
  let ?ds = "49 # replicate 4300 (48::nat)"
  have l1: "list_all isspace []" and l2: "?ds \<noteq> []"
    and l4: "([]::pystr) = [] \<or> \<not> isdecimal (hd ([]::pystr))"
    and l5: "\<forall>i<length ([]::pystr). \<not> pattern_matches_at ([] @ SCORE_lit @ [] @ ?ds @ []) i"
    by simp_all
  have l3: "list_all isdecimal ?ds" by (rule long_digits)
  note eq' = ask_first_token[OF refl l1 l2 l3 l4 l5]
  have len': "length ?ds = 4301" "\<not> length ?ds \<le> int_max_str_digits"
    by (simp_all add: int_max_str_digits_def)
  have b: "[] @ SCORE_lit @ [] @ ?ds @ [] = SCORE_lit @ ?ds" by simp
  from eq' len'(2)
  have "ask_ai_for_score_and_advice (Responded 200 ([] @ SCORE_lit @ [] @ ?ds @ [])) =
      (0, msg_error @ msg_int_limit (length ?ds))"
    by (simp only: if_False)
  then have long: "ask_ai_for_score_and_advice (Responded 200 (SCORE_lit @ ?ds)) =
      (0, msg_error @ msg_int_limit 4301)"
    unfolding len'(1) b .
  have "\<not> (\<exists>i<length [120, 32::nat]. pattern_matches_at ?body i)"
    using first by blast
  with short long show ?thesis by blast
qed

text \<open>
  Claim C1 as it is worded fails. In \<^verbatim>\<open>"SCORE: 5 SCORE:7"\<close> the first place where
  the prefix \<^verbatim>\<open>SCORE:\<close> is immediately followed by digits is the second token, with
  digits 7, yet the code matches the first token across the blank and returns score 5
  and advice \<^verbatim>\<open>"SCORE:7"\<close>. Reading the prefix with its blank, \<^verbatim>\<open>"SCORE: "\<close>, the
  same happens on \<^verbatim>\<open>"SCORE:5 SCORE: 7"\<close>.
\<close>

theorem spec_search_differs:
  "spec_search SCORE_lit [83,67,79,82,69,58,32,53,32,83,67,79,82,69,58,55] =
      Some (SCORE_lit @ [55], [55]) \<and>
   int_of_decimal [55] = 7 \<and>
   ask_ai_for_score_and_advice (Responded 200 [83,67,79,82,69,58,32,53,32,83,67,79,82,69,58,55]) =
      (5, [83,67,79,82,69,58,55]) \<and>
   spec_search (SCORE_lit @ [32]) [83,67,79,82,69,58,53,32,83,67,79,82,69,58,32,55] =
      Some (SCORE_lit @ [32] @ [55], [55]) \<and>
   ask_ai_for_score_and_advice (Responded 200 [83,67,79,82,69,58,53,32,83,67,79,82,69,58,32,55]) =
      (5, [83,67,79,82,69,58,32,55])"
  by (simp add: judge_eval class_eval)

text \<open>
  Claim C2. Whatever the remote call does, the function returns a pair: a response
  with a status other than 200 gives score 0 and the fixed connection message, an
  exception raised by the call gives score 0 and \<^verbatim>\<open>"Error: "\<close> followed by its
  description, and every exception of the \<^verbatim>\<open>try\<close> body is turned into such a pair
  by the handler.
\<close>

theorem ask_never_raises:
  "(\<forall>status_code body. status_code \<noteq> 200 \<longrightarrow>
       ask_ai_for_score_and_advice (Responded status_code body) = (0, msg_connection)) \<and>
   (\<forall>e. ask_ai_for_score_and_advice (Raised e) = (0, msg_error @ e)) \<and>
   (\<forall>out e. try_body out = Inl e \<longrightarrow> ask_ai_for_score_and_advice out = (0, msg_error @ e))"
  by (simp add: ask_ai_for_score_and_advice_def try_body_def)

text \<open>The theorem at status 404 and at an exception described as \<^verbatim>\<open>"timeout"\<close>.\<close>

theorem ask_never_raises_witness:
  "(404::int) \<noteq> 200 \<and>
   ask_ai_for_score_and_advice (Responded 404 [78, 111]) = (0, msg_connection) \<and>
   try_body (Raised [116, 105, 109, 101, 111, 117, 116]) = Inl [116, 105, 109, 101, 111, 117, 116] \<and>
   ask_ai_for_score_and_advice (Raised [116, 105, 109, 101, 111, 117, 116]) =
     (0, msg_error @ [116, 105, 109, 101, 111, 117, 116])"
  using ask_never_raises by (simp add: try_body_def)

text \<open>
  Claim C4. The response \<^verbatim>\<open>"SCORE: 83\n"\<close> followed by the eight characters U+C778
  U+C0DD U+0020 U+C798 U+0020 U+C0AC U+B124 U+C694, with status 200, gives score 83
  and those eight characters as the advice.
\<close>

theorem ask_well_formed_example:
  "ask_ai_for_score_and_advice
     (Responded 200 [83, 67, 79, 82, 69, 58, 32, 56, 51, 10,
                     51064, 49373, 32, 51096, 32, 49324, 45348, 50836]) =
   (83, [51064, 49373, 32, 51096, 32, 49324, 45348, 50836])"
  by (simp add: judge_eval class_eval)

text \<open>
  Claim C5. When the pattern matches at no index of a response with status 200, the
  score is 0 and the advice is the diagnostic message followed by the whole response.
\<close>

theorem ask_pattern_missing:
  assumes "\<forall>i\<le>length body. \<not> pattern_matches_at body i"
  shows "ask_ai_for_score_and_advice (Responded 200 body) = (0, msg_bad_format @ body) \<and>
         suffix body (snd (ask_ai_for_score_and_advice (Responded 200 body)))"
proof -
  have "re_search body = None"
    unfolding re_search_None_iff using assms match_here_iff_pattern[of _ body] by blast
  then have "ask_ai_for_score_and_advice (Responded 200 body) = (0, msg_bad_format @ body)"
    by (rule ask_on_no_match)
  then show ?thesis by (simp add: suffix_def)
qed

text \<open>The theorem at the response \<^verbatim>\<open>"I refuse to evaluate this."\<close>\<close>

theorem ask_pattern_missing_witness:
  "\<not> (\<exists>i\<le>length [73, 32, 114, 101, 102, 117, 115, 101, 32, 116, 111, 32, 101, 118, 97, 108,
                  117, 97, 116, 101, 32, 116, 104, 105, 115, 46::nat].
      pattern_matches_at [73, 32, 114, 101, 102, 117, 115, 101, 32, 116, 111, 32, 101, 118,
                             97, 108, 117, 97, 116, 101, 32, 116, 104, 105, 115, 46] i) \<and>
   ask_ai_for_score_and_advice
     (Responded 200 [73, 32, 114, 101, 102, 117, 115, 101, 32, 116, 111, 32, 101, 118, 97, 108,
                     117, 97, 116, 101, 32, 116, 104, 105, 115, 46]) =
     (0, msg_bad_format @ [73, 32, 114, 101, 102, 117, 115, 101, 32, 116, 111, 32, 101, 118, 97,
                           108, 117, 97, 116, 101, 32, 116, 104, 105, 115, 46])"
proof -
  let ?body = "[73, 32, 114, 101, 102, 117, 115, 101, 32, 116, 111, 32, 101, 118, 97, 108,
                117, 97, 116, 101, 32, 116, 104, 105, 115, 46::nat]"
  have "re_search ?body = None"
    by (simp add: match_here_def SCORE_lit_def)
  then have none: "\<forall>i\<le>length ?body. \<not> pattern_matches_at ?body i"
    unfolding re_search_None_iff using match_here_iff_pattern[of _ ?body] by blast
  from ask_pattern_missing[OF none]
  have "ask_ai_for_score_and_advice (Responded 200 ?body) = (0, msg_bad_format @ ?body)"
    by (rule conjunct1)
  moreover have "\<not> (\<exists>i\<le>length ?body. pattern_matches_at ?body i)"
    using none by blast
  ultimately show ?thesis by blast
qed

lemma decimal_value_ascii:
  "48 \<le> c \<Longrightarrow> c < 58 \<Longrightarrow> decimal_value c = Some (c - 48)"
  by (simp add: decimal_value_def decimal_zeros_def)

lemma digit_of_ascii: "d < 10 \<Longrightarrow> digit_of (48 + d) = int d"
  by (simp add: digit_of_def decimal_value_ascii)

lemma isdecimal_ascii: "d < 10 \<Longrightarrow> isdecimal (48 + d)"
  by (simp add: isdecimal_def decimal_value_ascii)

lemma int_of_decimal_snoc:
  "int_of_decimal (ds @ [c]) = 10 * int_of_decimal ds + digit_of c"
  by (simp add: int_of_decimal_def)

lemma decimal_str_nonempty: "decimal_str n \<noteq> []"
  by (induction n rule: decimal_str.induct) (subst decimal_str.simps, simp)

lemma decimal_str_digits: "list_all isdecimal (decimal_str n)"
proof (induction n rule: decimal_str.induct)
  case (1 n)
  show ?case
  proof (cases "n < 10")
    case True
    then show ?thesis by (subst decimal_str.simps) (simp add: isdecimal_ascii)
  next
    case False
    then show ?thesis using 1
      by (subst decimal_str.simps) (simp add: isdecimal_ascii)
  qed
qed

lemma int_of_decimal_str: "int_of_decimal (decimal_str n) = int n"
proof (induction n rule: decimal_str.induct)
  case (1 n)
  show ?case
  proof (cases "n < 10")
    case True
    then have "decimal_str n = [48 + n]" by (subst decimal_str.simps) simp
    then show ?thesis using True
      using int_of_decimal_snoc[of "[]" "48 + n"]
      by (simp add: digit_of_ascii int_of_decimal_def)
  next
    case False
    then have "decimal_str n = decimal_str (n div 10) @ [48 + n mod 10]"
      by (subst decimal_str.simps) simp
    then have "int_of_decimal (decimal_str n) = 10 * int (n div 10) + int (n mod 10)"
      using 1 False by (simp add: int_of_decimal_snoc digit_of_ascii)
    moreover have "int n = int (10 * (n div 10) + n mod 10)" by simp
    then have "int n = 10 * int (n div 10) + int (n mod 10)"
      by (simp only: of_nat_add of_nat_mult of_nat_numeral)
    ultimately show ?thesis by simp
  qed
qed

lemma decimal_str_length:
  "n < 10 ^ k \<Longrightarrow> 0 < k \<Longrightarrow> length (decimal_str n) \<le> k"
proof (induction n arbitrary: k rule: decimal_str.induct)
  case (1 n)
  show ?case
  proof (cases "n < 10")
    case True
    then have "decimal_str n = [48 + n]" by (subst decimal_str.simps) simp
    then show ?thesis using \<open>0 < k\<close> by simp
  next
    case False
    then have d: "decimal_str n = decimal_str (n div 10) @ [48 + n mod 10]"
      by (subst decimal_str.simps) simp
    obtain j where k: "k = Suc j" using \<open>0 < k\<close> by (cases k) auto
    have "0 < j"
    proof (rule ccontr)
      assume "\<not> 0 < j"
      then have "k = 1" using k by simp
      with \<open>n < 10 ^ k\<close> False show False by simp
    qed
    moreover have "n div 10 < 10 ^ j"
      using \<open>n < 10 ^ k\<close> unfolding k by (simp add: less_mult_imp_div_less)
    ultimately have "length (decimal_str (n div 10)) \<le> j"
      using "1.IH"[OF False] by blast
    then show ?thesis unfolding d k by simp
  qed
qed

lemma int_of_decimal_zeros:
  "int_of_decimal (ds @ replicate n 48) = int_of_decimal ds * 10 ^ n"
proof (induction n)
  case 0
  then show ?case by simp
next
  case (Suc n)
  have z: "digit_of 48 = 0" using digit_of_ascii[of 0] by simp
  have "ds @ replicate (Suc n) 48 = (ds @ replicate n 48) @ [48]"
    by (simp add: replicate_append_same)
  then show ?case using Suc by (simp only: int_of_decimal_snoc z) simp
qed

lemma int_of_long_digits: "int_of_decimal (49 # replicate n 48) = 10 ^ n"
proof -
  have "int_of_decimal [49] = 1" using digit_of_ascii[of 1] by (simp add: int_of_decimal_def)
  then show ?thesis using int_of_decimal_zeros[of "[49]" n] by simp
qed

lemma first_token_search:
  assumes "first_token body ws ds"
  shows "re_search body = Some (SCORE_lit @ ws @ ds, ds)"
proof -
  from assms obtain pre rest where "body = pre @ SCORE_lit @ ws @ ds @ rest"
    "list_all isspace ws" "ds \<noteq> []" "list_all isdecimal ds"
    "rest = [] \<or> \<not> isdecimal (hd rest)" "\<forall>i<length pre. \<not> pattern_matches_at body i"
    unfolding first_token_def by blast
  then show ?thesis by (rule re_search_token)
qed

lemma search_first_token:
  assumes "re_search body = Some (g0, g1)"
  shows "\<exists>ws. g0 = SCORE_lit @ ws @ g1 \<and> first_token body ws g1"
proof -
  from re_search_Some_imp[OF assms] obtain pre t where
    b: "body = pre @ t" and m: "match_here t = Some (g0, g1)"
    and f: "\<forall>i<length pre. match_here (drop i body) = None" by blast
  from match_here_Some_imp[OF m] obtain ws rest where
    t: "t = SCORE_lit @ ws @ g1 @ rest" and g: "g0 = SCORE_lit @ ws @ g1"
    and w: "list_all isspace ws" "g1 \<noteq> []" "list_all isdecimal g1"
      "rest = [] \<or> \<not> isdecimal (hd rest)" by blast
  have "\<forall>i<length pre. \<not> pattern_matches_at body i"
    using f match_here_iff_pattern[of _ body] by blast
  moreover have "body = pre @ SCORE_lit @ ws @ g1 @ rest" using b t by simp
  ultimately have "first_token body ws g1" unfolding first_token_def using w by blast
  with g show ?thesis by blast
qed

lemma ask_on_canonical:
  assumes "length (decimal_str n) \<le> int_max_str_digits"
  shows "ask_ai_for_score_and_advice (Responded 200 (SCORE_lit @ [32] @ decimal_str n)) = (int n, [])"
proof -
  have sp: "list_all isspace [32]" by (simp add: class_eval)
  have "re_search ([] @ SCORE_lit @ [32] @ decimal_str n @ []) =
          Some (SCORE_lit @ [32] @ decimal_str n, decimal_str n)"
    by (rule re_search_token[OF refl sp decimal_str_nonempty decimal_str_digits]) simp_all
  then have r: "re_search (SCORE_lit @ [32] @ decimal_str n) =
          Some (SCORE_lit @ [32] @ decimal_str n, decimal_str n)" by simp
  have e: "replace_with_empty old old = []" if "old \<noteq> []" for old :: pystr
    using that by (cases old) simp_all
  have "SCORE_lit @ [32] @ decimal_str n \<noteq> []" by (simp add: SCORE_lit_def)
  then have "replace_with_empty (SCORE_lit @ [32] @ decimal_str n) (SCORE_lit @ [32] @ decimal_str n) = []"
    by (rule e)
  with ask_on_match[OF r assms] show ?thesis
    by (simp add: int_of_decimal_str strip_def)
qed

text \<open>
  Claim C6, as the code has it. When the matched token of a response with status 200
  has at most 4300 digits and stands for an integer outside 0..100, the score is
  that integer, itself outside 0..100: nothing clamps it. Every natural number
  \<open>n\<close> below \<open>10 ^ 4300\<close> is returned as the score of the response \<^verbatim>\<open>"SCORE: "\<close>
  followed by the decimal numeral of \<open>n\<close>. A matched token of more than 4300 digits
  is rejected: \<^verbatim>\<open>int\<close> raises, the score is 0 and the advice is \<^verbatim>\<open>"Error: "\<close>
  with the description of the exception.
\<close>

theorem ask_score_unclamped:
  "(\<forall>body ws ds. first_token body ws ds \<and> length ds \<le> int_max_str_digits \<and>
       \<not> (0 \<le> int_of_decimal ds \<and> int_of_decimal ds \<le> 100) \<longrightarrow>
       fst (ask_ai_for_score_and_advice (Responded 200 body)) = int_of_decimal ds \<and>
       100 < fst (ask_ai_for_score_and_advice (Responded 200 body))) \<and>
   (\<forall>n. n < 10 ^ int_max_str_digits \<longrightarrow>
       ask_ai_for_score_and_advice (Responded 200 (SCORE_lit @ [32] @ decimal_str n)) =
         (int n, [])) \<and>
   (\<forall>body ws ds. first_token body ws ds \<and> int_max_str_digits < length ds \<longrightarrow>
       ask_ai_for_score_and_advice (Responded 200 body) =
         (0, msg_error @ msg_int_limit (length ds)))"
proof -
  have 1: "fst (ask_ai_for_score_and_advice (Responded 200 body)) = int_of_decimal ds \<and>
           100 < fst (ask_ai_for_score_and_advice (Responded 200 body))"
    if "first_token body ws ds" "length ds \<le> int_max_str_digits"
      "\<not> (0 \<le> int_of_decimal ds \<and> int_of_decimal ds \<le> 100)" for body ws ds
  proof -
    from ask_on_match[OF first_token_search[OF that(1)] that(2)]
    have "fst (ask_ai_for_score_and_advice (Responded 200 body)) = int_of_decimal ds" by simp
    moreover have "100 < int_of_decimal ds"
      using that(3) int_of_decimal_nonneg[of ds] by simp
    ultimately show ?thesis by simp
  qed
  have 2: "ask_ai_for_score_and_advice (Responded 200 (SCORE_lit @ [32] @ decimal_str n)) =
         (int n, [])" if "n < 10 ^ int_max_str_digits" for n
  proof -
    have "0 < int_max_str_digits" by (simp add: int_max_str_digits_def)
    with that have "length (decimal_str n) \<le> int_max_str_digits" by (rule decimal_str_length)
    then show ?thesis by (rule ask_on_canonical)
  qed
  have 3: "ask_ai_for_score_and_advice (Responded 200 body) =
         (0, msg_error @ msg_int_limit (length ds))"
    if "first_token body ws ds" "int_max_str_digits < length ds" for body ws ds
    using ask_on_long_match[OF first_token_search[OF that(1)] that(2)] .
  from 1 2 3 show ?thesis by blast
qed

text \<open>The theorem at the response \<^verbatim>\<open>"SCORE: 250\nok"\<close>: the score is 250.\<close>

theorem ask_score_unclamped_witness:
  "first_token [83, 67, 79, 82, 69, 58, 32, 50, 53, 48, 10, 111, 107] [32] [50, 53, 48] \<and>
   length [50, 53, 48::nat] \<le> int_max_str_digits \<and>
   100 < int_of_decimal [50, 53, 48] \<and>
   fst (ask_ai_for_score_and_advice
          (Responded 200 [83, 67, 79, 82, 69, 58, 32, 50, 53, 48, 10, 111, 107])) = 250"
proof -
  let ?body = "[83, 67, 79, 82, 69, 58, 32, 50, 53, 48, 10, 111, 107::nat]"
  have "?body = [] @ SCORE_lit @ [32] @ [50, 53, 48] @ [10, 111, 107]"
    by (simp add: SCORE_lit_def)
  moreover have "list_all isspace [32]" "list_all isdecimal [50, 53, 48]" "\<not> isdecimal 10"
    by (simp_all add: class_eval)
  ultimately have t: "first_token ?body [32] [50, 53, 48]"
    unfolding first_token_def
    by (intro exI[of _ "[]"] exI[of _ "[10, 111, 107]"]) simp
  have l: "length [50, 53, 48::nat] \<le> int_max_str_digits"
    by (simp add: int_max_str_digits_def)
  have v: "int_of_decimal [50, 53, 48] = 250"
    by (simp add: int_of_decimal_def digit_of_def decimal_value_def decimal_zeros_def)
  then have o: "\<not> (0 \<le> int_of_decimal [50, 53, 48] \<and> int_of_decimal [50, 53, 48] \<le> 100)"
    by simp
  from ask_score_unclamped t l o
  have "fst (ask_ai_for_score_and_advice (Responded 200 ?body)) = int_of_decimal [50, 53, 48]"
    by blast
  with t l v show ?thesis by simp
qed

text \<open>
  Claim C6 as it is worded fails. The response \<^verbatim>\<open>"SCORE: "\<close> followed by the digit 1
  and 4300 zeros matches the pattern, and its token stands for \<open>10 ^ 4300\<close>, an
  integer outside 0..100; the conversion raises, and the score returned is 0.
\<close>

theorem ask_rejects_long_token:
  "re_search (SCORE_lit @ 32 # 49 # replicate 4300 48) =
     Some (SCORE_lit @ 32 # 49 # replicate 4300 48, 49 # replicate 4300 48) \<and>
   int_of_decimal (49 # replicate 4300 48) = 10 ^ 4300 \<and>
   100 < int_of_decimal (49 # replicate 4300 48) \<and>
   ask_ai_for_score_and_advice (Responded 200 (SCORE_lit @ 32 # 49 # replicate 4300 48)) =
     (0, msg_error @ msg_int_limit 4301)"
proof -
  let ?ds = "49 # replicate 4300 (48::nat)"
  have sp: "list_all isspace [32]" by (simp add: class_eval)
  have "re_search ([] @ SCORE_lit @ [32] @ ?ds @ []) = Some (SCORE_lit @ [32] @ ?ds, ?ds)"
    by (rule re_search_token[OF refl sp _ long_digits]) simp_all
  then have r: "re_search (SCORE_lit @ 32 # ?ds) = Some (SCORE_lit @ 32 # ?ds, ?ds)" by simp
  have len: "length ?ds = 4301" by simp
  then have "int_max_str_digits < length ?ds" by (simp add: int_max_str_digits_def)
  from ask_on_long_match[OF r this]
  have a: "ask_ai_for_score_and_advice (Responded 200 (SCORE_lit @ 32 # ?ds)) =
      (0, msg_error @ msg_int_limit 4301)"
    unfolding len .
  have v: "int_of_decimal ?ds = 10 ^ 4300" by (rule int_of_long_digits)
  have "(100::int) = 10 ^ 2" by simp
  moreover have "(10::int) ^ 2 < 10 ^ 4300" by (rule power_strict_increasing) simp_all
  ultimately have h: "(100::int) < 10 ^ 4300" by (rule ord_eq_less_trans)
  have "100 < int_of_decimal ?ds" unfolding v by (rule h)
  with r v a show ?thesis by blast
qed

text \<open>
  Claim C9. On every return path the score is a non-negative integer. A token whose
  number carries a minus sign, \<^verbatim>\<open>SCORE:\<close>, whitespace, \<^verbatim>\<open>-\<close>, is no match of
  the pattern at its position, and the response \<^verbatim>\<open>"SCORE: -10"\<close> is handled as a
  malformed response with score 0.
\<close>

theorem ask_score_nonnegative:
  "(\<forall>out. 0 \<le> fst (ask_ai_for_score_and_advice out)) \<and>
   (\<forall>pre ws rest. list_all isspace ws \<longrightarrow>
      \<not> pattern_matches_at (pre @ SCORE_lit @ ws @ 45 # rest) (length pre)) \<and>
   ask_ai_for_score_and_advice (Responded 200 [83, 67, 79, 82, 69, 58, 32, 45, 49, 48]) =
     (0, msg_bad_format @ [83, 67, 79, 82, 69, 58, 32, 45, 49, 48])"
proof -
  have 1: "\<forall>out. 0 \<le> fst (ask_ai_for_score_and_advice out)"
    by (simp add: ask_score_nonneg)
  have 2: "\<forall>pre ws rest. list_all isspace ws \<longrightarrow>
      \<not> pattern_matches_at (pre @ SCORE_lit @ ws @ 45 # rest) (length pre)"
  proof (intro allI impI)
    fix pre ws rest :: pystr
    assume "list_all isspace ws"
    then have "match_here (SCORE_lit @ ws @ 45 # rest) = None" by (rule match_here_minus)
    then have "match_here (drop (length pre) (pre @ SCORE_lit @ ws @ 45 # rest)) = None" by simp
    then show "\<not> pattern_matches_at (pre @ SCORE_lit @ ws @ 45 # rest) (length pre)"
      using match_here_iff_pattern[of "length pre" "pre @ SCORE_lit @ ws @ 45 # rest"] by blast
  qed
  have 3: "ask_ai_for_score_and_advice (Responded 200 [83, 67, 79, 82, 69, 58, 32, 45, 49, 48]) =
     (0, msg_bad_format @ [83, 67, 79, 82, 69, 58, 32, 45, 49, 48])"
    by (simp add: judge_eval class_eval)
  from 1 2 3 show ?thesis by blast
qed

text \<open>The theorem at the response \<^verbatim>\<open>"abSCORE: \t-10"\<close>.\<close>

theorem ask_score_nonnegative_witness:
  "list_all isspace [32, 9] \<and>
   \<not> pattern_matches_at ([97, 98] @ SCORE_lit @ [32, 9] @ 45 # [49, 48]) (length [97, 98::nat]) \<and>
   0 \<le> fst (ask_ai_for_score_and_advice (Responded 200 ([97, 98] @ SCORE_lit @ [32, 9] @ 45 # [49, 48])))"
proof -
  have s: "list_all isspace [32, 9]" by (simp add: class_eval)
  with ask_score_nonnegative
  have "\<not> pattern_matches_at ([97, 98] @ SCORE_lit @ [32, 9] @ 45 # [49, 48]) (length [97, 98::nat])"
    by blast
  moreover from ask_score_nonnegative
  have "0 \<le> fst (ask_ai_for_score_and_advice (Responded 200 ([97, 98] @ SCORE_lit @ [32, 9] @ 45 # [49, 48])))"
    by blast
  ultimately show ?thesis using s by blast
qed

section \<open>The replacement that builds the advice\<close>

lemma pieces_nonempty: "pieces old s \<noteq> []"
  by (induction old s rule: pieces.induct) (auto split: list.splits)

lemma pieces_Cons_no:
  "\<not> (old \<noteq> [] \<and> prefix old (c # cs)) \<Longrightarrow> pieces old cs = p # ps \<Longrightarrow>
     pieces old (c # cs) = (c # p) # ps"
  by simp

lemma concat_pieces: "concat (pieces old s) = replace_with_empty old s"
  by (induction old s rule: pieces.induct) (auto split: list.splits)

lemma join_Cons: "ps \<noteq> [] \<Longrightarrow> join sep (p # ps) = p @ sep @ join sep ps"
  by (cases ps) auto

lemma join_Cons_head: "join sep ((c # p) # ps) = c # join sep (p # ps)"
  by (cases ps) auto

lemma join_pieces: "join old (pieces old s) = s"
proof (induction old s rule: pieces.induct)
  case (1 old)
  then show ?case by simp
next
  case (2 old c cs)
  show ?case
  proof (cases "old \<noteq> [] \<and> prefix old (c # cs)")
    case True
    then obtain rest where r: "c # cs = old @ rest" by (auto simp: prefix_def)
    then have d: "drop (length old) (c # cs) = rest" by (metis append_eq_conv_conj)
    have ps: "pieces old (c # cs) = [] # pieces old (drop (length old) (c # cs))"
      using True by simp
    from 2(1)[OF True] have "join old (pieces old rest) = rest" unfolding d .
    then have "join old ([] # pieces old rest) = old @ rest"
      by (simp add: join_Cons pieces_nonempty)
    then show ?thesis unfolding ps d using r by simp
  next
    case False
    obtain p ps where pp: "pieces old cs = p # ps"
      using pieces_nonempty[of old cs] by (cases "pieces old cs") auto
    from 2(2)[OF False] have "join old (p # ps) = cs" unfolding pp .
    then have "join old ((c # p) # ps) = c # cs" by (simp add: join_Cons_head)
    then show ?thesis unfolding pieces_Cons_no[OF False pp] .
  qed
qed

lemma hd_pieces_prefix: "prefix (hd (pieces old s)) s"
  by (induction old s rule: pieces.induct) (auto split: list.splits)

lemma pieces_free:
  "old \<noteq> [] \<Longrightarrow> \<forall>p\<in>set (pieces old s). \<not> sublist old p"
proof (induction old s rule: pieces.induct)
  case (1 old)
  then show ?case by simp
next
  case (2 old c cs)
  note ne = \<open>old \<noteq> []\<close>
  show ?case
  proof (cases "old \<noteq> [] \<and> prefix old (c # cs)")
    case True
    with 2(1)[OF True ne] show ?thesis by simp
  next
    case False
    obtain p ps where pp: "pieces old cs = p # ps"
      using pieces_nonempty[of old cs] by (cases "pieces old cs") auto
    from 2(2)[OF False ne] pp have ih: "\<not> sublist old p" "\<forall>q\<in>set ps. \<not> sublist old q"
      by simp_all
    have "prefix p cs" using hd_pieces_prefix[of old cs] pp by simp
    then have "prefix (c # p) (c # cs)" by simp
    moreover have "\<not> prefix old (c # cs)" using False ne by simp
    ultimately have "\<not> prefix old (c # p)" using prefix_order.trans by blast
    with ih(1) have "\<not> sublist old (c # p)" by (simp add: sublist_Cons_right)
    with ih(2) show ?thesis unfolding pieces_Cons_no[OF False pp] by simp
  qed
qed

lemma occurrences_skip:
  "old \<noteq> [] \<Longrightarrow> hd old \<notin> set xs \<Longrightarrow> occurrences old (xs @ rest) = occurrences old rest"
proof (induction xs)
  case Nil
  then show ?case by simp
next
  case (Cons x xs)
  have "\<not> prefix old (x # xs @ rest)"
  proof
    assume "prefix old (x # xs @ rest)"
    with Cons.prems(1) have "hd old = x" by (cases old) auto
    with Cons.prems(2) show False by simp
  qed
  with Cons show ?case by simp
qed

lemma pieces_count:
  "old \<noteq> [] \<Longrightarrow> hd old \<notin> set (tl old) \<Longrightarrow>
     length (pieces old s) = Suc (occurrences old s)"
proof (induction old s rule: pieces.induct)
  case (1 old)
  then show ?case by simp
next
  case (2 old c cs)
  note ne = \<open>old \<noteq> []\<close> and hd = \<open>hd old \<notin> set (tl old)\<close>
  show ?case
  proof (cases "old \<noteq> [] \<and> prefix old (c # cs)")
    case True
    then obtain rest where r: "c # cs = old @ rest" by (auto simp: prefix_def)
    then have d: "drop (length old) (c # cs) = rest" by (metis append_eq_conv_conj)
    have ps: "pieces old (c # cs) = [] # pieces old (drop (length old) (c # cs))"
      using True by simp
    have oc: "occurrences old (c # cs) = 1 + occurrences old cs"
      using True by simp
    from ne r have "cs = tl old @ rest" by (cases old) auto
    then have "occurrences old cs = occurrences old rest"
      using occurrences_skip[OF ne hd, of rest] by (simp only:)
    moreover from 2(1)[OF True ne hd] have "length (pieces old rest) = Suc (occurrences old rest)"
      unfolding d .
    ultimately show ?thesis unfolding ps oc d by simp
  next
    case False
    obtain p ps where pp: "pieces old cs = p # ps"
      using pieces_nonempty[of old cs] by (cases "pieces old cs") auto
    from 2(2)[OF False ne hd] pp have "Suc (length ps) = Suc (occurrences old cs)" by simp
    moreover have "\<not> prefix old (c # cs)" using False ne by simp
    ultimately show ?thesis unfolding pieces_Cons_no[OF False pp] by simp
  qed
qed

lemma occurrences_found: "old \<noteq> [] \<Longrightarrow> 0 < occurrences old (pre @ old @ rest)"
  by (induction pre) (auto simp: neq_Nil_conv)

lemma S_no_class: "\<not> isspace 83" "\<not> isdecimal 83"
  by (simp_all add: class_eval)

lemma matched_text_shape:
  assumes "re_search body = Some (g0, g1)"
  shows "g0 \<noteq> [] \<and> hd g0 \<notin> set (tl g0) \<and> (\<exists>pre rest. body = pre @ g0 @ rest)"
proof -
  from re_search_Some_imp[OF assms] obtain pre t where
    b: "body = pre @ t" and m: "match_here t = Some (g0, g1)" by blast
  from match_here_Some_imp[OF m] obtain ws rest where
    t: "t = SCORE_lit @ ws @ g1 @ rest" and g: "g0 = SCORE_lit @ ws @ g1"
    and w: "list_all isspace ws" and d: "list_all isdecimal g1" by blast
  have "83 \<notin> set ws" using w S_no_class(1) by (auto simp: list_all_iff)
  moreover have "83 \<notin> set g1" using d S_no_class(2) by (auto simp: list_all_iff)
  ultimately have "hd g0 \<notin> set (tl g0)" by (simp add: g SCORE_lit_def)
  moreover have "g0 \<noteq> []" by (simp add: g SCORE_lit_def)
  moreover have "body = pre @ g0 @ rest" by (simp add: b t g)
  ultimately show ?thesis by blast
qed

text \<open>
  Claim C10, as the code has it. When the pattern matches, every occurrence of the
  matched text in the response is removed, not only the first: the response is its
  pieces joined by the matched text, there is one piece more than there are
  occurrences, at least two, and no piece contains the matched text. When the
  matched digits are at most 4300, the advice is the pieces put together and trimmed;
  with more digits \<^verbatim>\<open>int\<close> raises before the advice is built, and the advice is
  \<^verbatim>\<open>"Error: "\<close> with the description of the exception.
\<close>

theorem advice_removes_every_occurrence:
  assumes "re_search body = Some (g0, g1)"
  shows "0 < occurrences g0 body \<and>
         length (pieces g0 body) = Suc (occurrences g0 body) \<and>
         body = join g0 (pieces g0 body) \<and>
         (\<forall>p\<in>set (pieces g0 body). \<not> sublist g0 p) \<and>
         snd (ask_ai_for_score_and_advice (Responded 200 body)) =
           (if length g1 \<le> int_max_str_digits
            then strip (concat (pieces g0 body))
            else msg_error @ msg_int_limit (length g1))"
proof -
  from matched_text_shape[OF assms] obtain pre rest where
    ne: "g0 \<noteq> []" and s: "hd g0 \<notin> set (tl g0)" and b: "body = pre @ g0 @ rest" by blast
  have "0 < occurrences g0 body" unfolding b using ne by (rule occurrences_found)
  moreover have "length (pieces g0 body) = Suc (occurrences g0 body)"
    using ne s by (rule pieces_count)
  moreover have "body = join g0 (pieces g0 body)" by (simp add: join_pieces)
  moreover have "\<forall>p\<in>set (pieces g0 body). \<not> sublist g0 p" using ne by (rule pieces_free)
  moreover have "snd (ask_ai_for_score_and_advice (Responded 200 body)) =
           (if length g1 \<le> int_max_str_digits
            then strip (concat (pieces g0 body))
            else msg_error @ msg_int_limit (length g1))"
  proof (cases "length g1 \<le> int_max_str_digits")
    case True
    with ask_on_match[OF assms True] show ?thesis by (simp add: concat_pieces)
  next
    case False
    then have "int_max_str_digits < length g1" by simp
    from ask_on_long_match[OF assms this] False show ?thesis by simp
  qed
  ultimately show ?thesis by blast
qed

text \<open>
  The theorem at the response \<^verbatim>\<open>"SCORE: 1\naSCORE: 1b"\<close>: two occurrences, three
  pieces, and the advice \<^verbatim>\<open>"ab"\<close>.
\<close>

theorem advice_removes_every_occurrence_witness:
  "occurrences [83, 67, 79, 82, 69, 58, 32, 49]
     [83, 67, 79, 82, 69, 58, 32, 49, 10, 97, 83, 67, 79, 82, 69, 58, 32, 49, 98] = 2 \<and>
   pieces [83, 67, 79, 82, 69, 58, 32, 49]
     [83, 67, 79, 82, 69, 58, 32, 49, 10, 97, 83, 67, 79, 82, 69, 58, 32, 49, 98] =
     [[], [10, 97], [98]] \<and>
   snd (ask_ai_for_score_and_advice (Responded 200
     [83, 67, 79, 82, 69, 58, 32, 49, 10, 97, 83, 67, 79, 82, 69, 58, 32, 49, 98])) = [97, 98]"
proof -
  let ?m = "[83, 67, 79, 82, 69, 58, 32, 49::nat]"
  let ?b = "[83, 67, 79, 82, 69, 58, 32, 49, 10, 97, 83, 67, 79, 82, 69, 58, 32, 49, 98::nat]"
  have r: "re_search ?b = Some (?m, [49])"
    by (simp add: match_here_def SCORE_lit_def Let_def class_eval)
  have p: "pieces ?m ?b = [[], [10, 97], [98]]" by simp
  have o: "occurrences ?m ?b = 2" by simp
  have l: "length [49::nat] \<le> int_max_str_digits" by (simp add: int_max_str_digits_def)
  from advice_removes_every_occurrence[OF r]
  have "snd (ask_ai_for_score_and_advice (Responded 200 ?b)) =
           (if length [49::nat] \<le> int_max_str_digits
            then strip (concat (pieces ?m ?b))
            else msg_error @ msg_int_limit (length [49::nat]))"
    by blast
  also have "\<dots> = strip (concat (pieces ?m ?b))" using l by (simp only: if_True)
  also have "\<dots> = [97, 98]" unfolding p by (simp add: strip_def isspace_def space_points_def)
  finally show ?thesis using p o by blast
qed

text \<open>
  Claim C10 as it is worded fails: the advice can hold the matched text, where two
  pieces meet. In \<^verbatim>\<open>"SCOSCORE: 1RE: 1 SCORE: 1"\<close> the matched text
  \<^verbatim>\<open>"SCORE: 1"\<close> occurs twice, both occurrences are removed, and what is left,
  trimmed, is \<^verbatim>\<open>"SCORE: 1"\<close> again.
\<close>

theorem advice_can_hold_matched_text:
  "re_search [83, 67, 79, 83, 67, 79, 82, 69, 58, 32, 49, 82, 69, 58, 32, 49, 32,
              83, 67, 79, 82, 69, 58, 32, 49] =
     Some ([83, 67, 79, 82, 69, 58, 32, 49], [49]) \<and>
   occurrences [83, 67, 79, 82, 69, 58, 32, 49]
     [83, 67, 79, 83, 67, 79, 82, 69, 58, 32, 49, 82, 69, 58, 32, 49, 32,
      83, 67, 79, 82, 69, 58, 32, 49] = 2 \<and>
   snd (ask_ai_for_score_and_advice (Responded 200
     [83, 67, 79, 83, 67, 79, 82, 69, 58, 32, 49, 82, 69, 58, 32, 49, 32,
      83, 67, 79, 82, 69, 58, 32, 49])) = [83, 67, 79, 82, 69, 58, 32, 49]"
  by (simp add: judge_eval class_eval)

section \<open>Claims about the presentation shell\<close>

lemma run_script_no_click: "button ev = None \<Longrightarrow> run_script st ev = st"
  by (simp add: run_script_def)

lemma run_script_click:
  "button ev = Some out \<Longrightarrow> run_script st ev = stored_result (ask_ai_for_score_and_advice out)"
  by (simp add: run_script_def stored_result_def split: prod.splits)

lemma foldl_run_script:
  "foldl run_script st evs =
     (case last_evaluation evs of
        None \<Rightarrow> st
      | Some out \<Rightarrow> stored_result (ask_ai_for_score_and_advice out))"
proof (induction evs arbitrary: st)
  case Nil
  then show ?case by simp
next
  case (Cons ev evs)
  show ?case
  proof (cases "last_evaluation evs")
    case None
    then show ?thesis
      using Cons.IH[of "run_script st ev"]
      by (cases "button ev") (simp_all add: run_script_no_click run_script_click)
  next
    case (Some out)
    then show ?thesis using Cons.IH[of "run_script st ev"] by simp
  qed
qed

lemma display_stored:
  "display (stored_result r) =
     St_result (fst r) (Some (snd r))
       (if fst r \<ge> 80 then St_success else if fst r \<ge> 50 then St_warning else St_error)"
  by (simp add: display_def stored_result_def)

text \<open>
  Claim C7. The stored result is absent in a new session. A run in which the button
  is clicked stores the pair the judge client returns, whatever it is and whatever
  was stored before. After any sequence of runs the stored and the displayed result
  are those of the most recent run with a click, or the neutral prompt when there
  was none. A run without a click leaves the state and the displayed result as they
  were, whatever the sliders say.
\<close>

theorem shell_shows_last_evaluation:
  "ai_score new_session = None \<and> ai_advice new_session = None \<and>
   display new_session = St_info \<and>
   (\<forall>st ev out. button ev = Some out \<longrightarrow>
      run_script st ev = stored_result (ask_ai_for_score_and_advice out)) \<and>
   (\<forall>evs. foldl run_script new_session evs =
      (case last_evaluation evs of
         None \<Rightarrow> new_session
       | Some out \<Rightarrow> stored_result (ask_ai_for_score_and_advice out))) \<and>
   (\<forall>evs. display (foldl run_script new_session evs) =
      (case last_evaluation evs of
         None \<Rightarrow> St_info
       | Some out \<Rightarrow> display (stored_result (ask_ai_for_score_and_advice out)))) \<and>
   (\<forall>st data. run_script st \<lparr>sliders = data, button = None\<rparr> = st \<and>
      display (run_script st \<lparr>sliders = data, button = None\<rparr>) = display st)"
proof -
  have 1: "ai_score new_session = None \<and> ai_advice new_session = None \<and>
           display new_session = St_info"
    by (simp add: new_session_def display_def)
  have 2: "\<forall>st ev out. button ev = Some out \<longrightarrow>
      run_script st ev = stored_result (ask_ai_for_score_and_advice out)"
    by (simp add: run_script_click)
  have 3: "\<forall>evs. foldl run_script new_session evs =
      (case last_evaluation evs of
         None \<Rightarrow> new_session
       | Some out \<Rightarrow> stored_result (ask_ai_for_score_and_advice out))"
    by (simp add: foldl_run_script)
  have 4: "\<forall>evs. display (foldl run_script new_session evs) =
      (case last_evaluation evs of
         None \<Rightarrow> St_info
       | Some out \<Rightarrow> display (stored_result (ask_ai_for_score_and_advice out)))"
    using 1 by (simp add: foldl_run_script split: option.split)
  have 5: "\<forall>st data. run_script st \<lparr>sliders = data, button = None\<rparr> = st \<and>
      display (run_script st \<lparr>sliders = data, button = None\<rparr>) = display st"
    by (simp add: run_script_no_click)
  from 1 2 3 4 5 show ?thesis by blast
qed

text \<open>
  The theorem at a session of four runs: sliders moved, a click answered with status
  503, a click answered with \<^verbatim>\<open>"SCORE: 83\nok"\<close>, sliders moved again. The last run
  displays 83 and \<^verbatim>\<open>"ok"\<close> in the success box.
\<close>

theorem shell_shows_last_evaluation_witness:
  "display (foldl run_script new_session
      [\<lparr>sliders = input_data 7 6 3 1 2, button = None\<rparr>,
       \<lparr>sliders = input_data 7 6 3 1 2, button = Some (Responded 503 [])\<rparr>,
       \<lparr>sliders = input_data 7 6 3 1 2,
        button = Some (Responded 200 [83, 67, 79, 82, 69, 58, 32, 56, 51, 10, 111, 107])\<rparr>,
       \<lparr>sliders = input_data 0 24 0 0 0, button = None\<rparr>]) =
   St_result 83 (Some [111, 107]) St_success"
proof -
  let ?evs = "[\<lparr>sliders = input_data 7 6 3 1 2, button = None\<rparr>,
       \<lparr>sliders = input_data 7 6 3 1 2, button = Some (Responded 503 [])\<rparr>,
       \<lparr>sliders = input_data 7 6 3 1 2,
        button = Some (Responded 200 [83, 67, 79, 82, 69, 58, 32, 56, 51, 10, 111, 107])\<rparr>,
       \<lparr>sliders = input_data 0 24 0 0 0, button = None\<rparr>]"
  have l: "last_evaluation ?evs = Some (Responded 200 [83, 67, 79, 82, 69, 58, 32, 56, 51, 10, 111, 107])"
    by simp
  have a: "ask_ai_for_score_and_advice (Responded 200 [83, 67, 79, 82, 69, 58, 32, 56, 51, 10, 111, 107])
      = (83, [111, 107])"
    by (simp add: judge_eval class_eval)
  from shell_shows_last_evaluation
  have "display (foldl run_script new_session ?evs) =
      (case last_evaluation ?evs of
         None \<Rightarrow> St_info
       | Some out \<Rightarrow> display (stored_result (ask_ai_for_score_and_advice out)))"
    by blast
  also have "\<dots> = display (stored_result (83, [111, 107]))"
    by (simp only: l a option.simps)
  also have "\<dots> = St_result 83 (Some [111, 107]) St_success"
    by (simp add: display_stored)
  finally show ?thesis .
qed

section \<open>Claims about the renderers\<close>

lemma bars_of_chart:
  "bars (create_bar_chart data) =
     map (\<lambda>(cat, v). \<lparr>bar_category = cat, bar_height = v, bar_color = COLORS_get cat\<rparr>) data"
  unfolding create_bar_chart_def Let_def by (induction data) auto

lemma texts_of_chart:
  "texts (create_bar_chart data) = label_bars 0 (bars (create_bar_chart data))"
  unfolding create_bar_chart_def Let_def by simp

lemma label_bars_index:
  "(\<exists>t\<in>set (label_bars i bs). text_bar t = j) \<longleftrightarrow>
     i \<le> j \<and> j < i + length bs \<and> 0 < bar_height (bs ! (j - i))"
proof (induction bs arbitrary: i)
  case Nil
  then show ?case by simp
next
  case (Cons b bs)
  have "(\<exists>t\<in>set (label_bars i (b # bs)). text_bar t = j) \<longleftrightarrow>
        (0 < bar_height b \<and> j = i) \<or> (\<exists>t\<in>set (label_bars (Suc i) bs). text_bar t = j)"
    by (auto simp: Let_def)
  also have "\<dots> \<longleftrightarrow> (0 < bar_height b \<and> j = i) \<or>
        (Suc i \<le> j \<and> j < Suc i + length bs \<and> 0 < bar_height (bs ! (j - Suc i)))"
    unfolding Cons.IH ..
  also have "\<dots> \<longleftrightarrow> i \<le> j \<and> j < i + length (b # bs) \<and> 0 < bar_height ((b # bs) ! (j - i))"
  proof (cases "j = i")
    case True
    then show ?thesis by simp
  next
    case False
    show ?thesis
    proof (cases "i < j")
      case True
      then obtain k where "j - i = Suc k" "j - Suc i = k" by (cases "j - i") auto
      then show ?thesis using True by auto
    next
      case False
      with \<open>j \<noteq> i\<close> show ?thesis by auto
    qed
  qed
  finally show ?case .
qed

lemma label_bars_value:
  "t \<in> set (label_bars i bs) \<Longrightarrow>
     i \<le> text_bar t \<and> text_bar t < i + length bs \<and>
     text_hours t = bar_height (bs ! (text_bar t - i)) \<and>
     text_y t = bar_height (bs ! (text_bar t - i)) + 1 / 2"
proof (induction bs arbitrary: i)
  case Nil
  then show ?case by simp
next
  case (Cons b bs)
  show ?case
  proof (cases "t \<in> set (label_bars (Suc i) bs)")
    case True
    from Cons.IH[OF this] obtain k where "text_bar t - i = Suc k" "text_bar t - Suc i = k"
      by (cases "text_bar t - i") auto
    with Cons.IH[OF True] show ?thesis by auto
  next
    case False
    with Cons.prems have "0 < bar_height b"
      "t = \<lparr>text_bar = i, text_y = bar_height b + 1 / 2, text_hours = bar_height b\<rparr>"
      by (auto simp: Let_def split: if_splits)
    then show ?thesis by simp
  qed
qed

text \<open>
  Claim C8. For five non-negative hour values the chart has one bar for each
  category, in the order of the data, with the supplied hours as its height; a bar
  has a text above it exactly when its height is not zero, and the text shows the
  height of its bar.
\<close>

theorem chart_bars_and_labels:
  assumes "0 \<le> sleep" "0 \<le> study" "0 \<le> screen" "0 \<le> exercise" "0 \<le> social"
  shows "map (\<lambda>b. (bar_category b, bar_height b))
           (bars (create_bar_chart (input_data sleep study screen exercise social))) =
         input_data sleep study screen exercise social \<and>
         (\<forall>i<5.
            (\<exists>t\<in>set (texts (create_bar_chart (input_data sleep study screen exercise social))).
               text_bar t = i) \<longleftrightarrow>
            bar_height
              (bars (create_bar_chart (input_data sleep study screen exercise social)) ! i) \<noteq> 0) \<and>
         (\<forall>t\<in>set (texts (create_bar_chart (input_data sleep study screen exercise social))).
            text_bar t < 5 \<and>
            text_hours t =
              bar_height
                (bars (create_bar_chart (input_data sleep study screen exercise social))
                   ! text_bar t))"
proof -
  let ?data = "input_data sleep study screen exercise social"
  let ?bs = "bars (create_bar_chart ?data)"
  have len: "length ?bs = 5" by (simp add: bars_of_chart input_data_def)
  have 1: "map (\<lambda>b. (bar_category b, bar_height b)) ?bs = ?data"
    by (simp add: bars_of_chart input_data_def)
  have nonneg: "0 \<le> bar_height (?bs ! i)" if "i < 5" for i
  proof -
    from that have "i = 0 \<or> i = 1 \<or> i = 2 \<or> i = 3 \<or> i = 4" by arith
    then show ?thesis using assms
      by (auto simp: bars_of_chart input_data_def)
  qed
  have 2: "(\<exists>t\<in>set (texts (create_bar_chart ?data)). text_bar t = i) \<longleftrightarrow>
             bar_height (?bs ! i) \<noteq> 0" if "i < 5" for i
    using that nonneg[OF that] len
    unfolding texts_of_chart label_bars_index by auto
  have 3: "text_bar t < 5 \<and> text_hours t = bar_height (?bs ! text_bar t)"
    if "t \<in> set (texts (create_bar_chart ?data))" for t
    using label_bars_value[of t 0 ?bs] that len unfolding texts_of_chart by simp
  from 1 2 3 show ?thesis by blast
qed

text \<open>
  The theorem at the hours 7, 0, 3, 0, 25: the bar of index 1 has height 0 and no
  text, the bar of index 4 has height 25 and a text.
\<close>

theorem chart_bars_and_labels_witness:
  "bar_height (bars (create_bar_chart (input_data 7 0 3 0 25)) ! 1) = 0 \<and>
   \<not> (\<exists>t\<in>set (texts (create_bar_chart (input_data 7 0 3 0 25))). text_bar t = 1) \<and>
   bar_height (bars (create_bar_chart (input_data 7 0 3 0 25)) ! 4) = 25 \<and>
   (\<exists>t\<in>set (texts (create_bar_chart (input_data 7 0 3 0 25))). text_bar t = 4)"
proof -
  have h: "bar_height (bars (create_bar_chart (input_data 7 0 3 0 25)) ! 1) = 0"
    "bar_height (bars (create_bar_chart (input_data 7 0 3 0 25)) ! 4) = 25"
    by (simp_all add: bars_of_chart input_data_def)
  have "(0::real) \<le> 7" "(0::real) \<le> 0" "(0::real) \<le> 3" "(0::real) \<le> 25" by simp_all
  from chart_bars_and_labels[OF this(1) this(2) this(3) this(2) this(4)]
  have l: "\<forall>i<5. (\<exists>t\<in>set (texts (create_bar_chart (input_data 7 0 3 0 25))). text_bar t = i) \<longleftrightarrow>
            bar_height (bars (create_bar_chart (input_data 7 0 3 0 25)) ! i) \<noteq> 0"
    by blast
  have "(1::nat) < 5" "(4::nat) < 5" by simp_all
  with l have
    "(\<exists>t\<in>set (texts (create_bar_chart (input_data 7 0 3 0 25))). text_bar t = 1) \<longleftrightarrow>
       bar_height (bars (create_bar_chart (input_data 7 0 3 0 25)) ! 1) \<noteq> 0"
    "(\<exists>t\<in>set (texts (create_bar_chart (input_data 7 0 3 0 25))). text_bar t = 4) \<longleftrightarrow>
       bar_height (bars (create_bar_chart (input_data 7 0 3 0 25)) ! 4) \<noteq> 0"
    by blast+
  with h show ?thesis by simp
qed

end
